theory Spec2Isabelle
  imports Complex_Main "HOL-Library.List_Lexorder" "HOL-Library.Char_ord"
begin

section \<open>Tables\<close>

text \<open>
  The program (\<^verbatim>\<open>MassiveQC/build_features.py\<close>) is a chain of pandas calls. A
  DataFrame is modelled column-major, as pandas stores it: the row labels (run or sample
  identifiers, strings) and the columns in their order, each a label with one cell per
  row. Column labels may repeat (\<^verbatim>\<open>pd.concat(axis=1)\<close> does not merge columns of the
  same name), so the columns are an association list and not a map. A cell is a float
  (idealised as a real number: rounding is not modelled), a string, or missing (NaN).
  Every pandas exception is a value of \<open>error\<close>; the pandas semantics written out here
  are those of pandas 1.x/2.x.
\<close>

datatype cell = Num real | Str string | NaN

record frame =
  index :: "string list"
  columns :: "(string \<times> cell list) list"

datatype error =
    KeyError "string list"
  | ValueError
  | InvalidIndexError
  | TypeError
  | FileNotFoundError string
  | ParserError string
  | EmptyDataError

definition and_then :: "error + 'a \<Rightarrow> ('a \<Rightarrow> error + 'b) \<Rightarrow> error + 'b" where
  "and_then m f = (case m of Inl e \<Rightarrow> Inl e | Inr x \<Rightarrow> f x)"

fun collect :: "(error + 'a) list \<Rightarrow> error + 'a list" where
  "collect [] = Inr []"
| "collect (r # rs) = and_then r (\<lambda>x. and_then (collect rs) (\<lambda>xs. Inr (x # xs)))"

definition labels :: "frame \<Rightarrow> string list" where
  "labels df = map fst (columns df)"

definition missing_labels :: "frame \<Rightarrow> string list \<Rightarrow> string list" where
  "missing_labels df ks = filter (\<lambda>k. k \<notin> set (labels df)) ks"

text \<open>The column of a label (the first one, where the label repeats); no cells if absent.\<close>

definition column :: "frame \<Rightarrow> string \<Rightarrow> cell list" where
  "column df k = (case map_of (columns df) k of None \<Rightarrow> [] | Some c \<Rightarrow> c)"

text \<open>
  \<^verbatim>\<open>df[ks]\<close> and \<^verbatim>\<open>df.loc[:, ks]\<close> with a list of labels: the columns of each requested
  label, in the order requested (all of them where a label repeats); KeyError, naming the
  absent labels, as soon as one requested label is absent.
\<close>

definition select_columns :: "frame \<Rightarrow> string list \<Rightarrow> (string \<times> cell list) list" where
  "select_columns df ks = concat (map (\<lambda>k. filter (\<lambda>c. fst c = k) (columns df)) ks)"

definition getitem :: "frame \<Rightarrow> string list \<Rightarrow> error + frame" where
  "getitem df ks =
     (if missing_labels df ks = [] then Inr (df\<lparr>columns := select_columns df ks\<rparr>)
      else Inl (KeyError (missing_labels df ks)))"

text \<open>
  \<^verbatim>\<open>.sum(axis=1)\<close>: one float per row, the sum of the row's present values
  (\<^verbatim>\<open>skipna=True\<close>, \<^verbatim>\<open>min_count=0\<close>: a row without any present value sums to 0.0).
  The summed columns are float columns in this program; a string cell among them is
  reported as TypeError.
\<close>

fun num :: "cell \<Rightarrow> real" where
  "num (Num x) = x"
| "num (Str s) = 0"
| "num NaN = 0"

fun is_str :: "cell \<Rightarrow> bool" where
  "is_str (Str s) = True"
| "is_str (Num x) = False"
| "is_str NaN = False"

definition sum_axis1 :: "frame \<Rightarrow> error + cell list" where
  "sum_axis1 df =
     (if list_ex (\<lambda>c. list_ex is_str (snd c)) (columns df) then Inl TypeError
      else Inr (map (\<lambda>i. Num (sum_list (map (\<lambda>c. num (snd c ! i)) (columns df))))
                  [0..<length (index df)]))"

text \<open>
  \<^verbatim>\<open>df.assign(name=v)\<close>: a new frame in which \<open>v\<close> replaces every column labelled
  \<open>name\<close>, or is appended as the last column when there is none.
\<close>

definition assign :: "frame \<Rightarrow> string \<Rightarrow> cell list \<Rightarrow> frame" where
  "assign df name v =
     df\<lparr>columns :=
       (if name \<in> set (labels df)
        then map (\<lambda>c. if fst c = name then (name, v) else c) (columns df)
        else columns df @ [(name, v)])\<rparr>"

text \<open>\<^verbatim>\<open>df.drop(ks, axis=1)\<close>: KeyError when a label to drop is absent.\<close>

definition drop_columns :: "frame \<Rightarrow> string list \<Rightarrow> error + frame" where
  "drop_columns df ks =
     (if missing_labels df ks = []
      then Inr (df\<lparr>columns := filter (\<lambda>c. fst c \<notin> set ks) (columns df)\<rparr>)
      else Inl (KeyError (missing_labels df ks)))"

text \<open>\<^verbatim>\<open>df.rename(columns=m)\<close>: labels outside the dictionary stay.\<close>

definition rename_label :: "(string \<times> string) list \<Rightarrow> string \<Rightarrow> string" where
  "rename_label m k = (case map_of m k of None \<Rightarrow> k | Some n \<Rightarrow> n)"

definition rename_columns :: "(string \<times> string) list \<Rightarrow> frame \<Rightarrow> frame" where
  "rename_columns m df = df\<lparr>columns := map (\<lambda>c. (rename_label m (fst c), snd c)) (columns df)\<rparr>"

section \<open>The coverage reducer\<close>

definition digit_char :: "nat \<Rightarrow> char" where
  "digit_char d = char_of (48 + d)"

function string_of_nat :: "nat \<Rightarrow> string" where
  "string_of_nat n =
     (if n < 10 then [digit_char n] else string_of_nat (n div 10) @ [digit_char (n mod 10)])"
  by pat_completeness auto
termination
  by (relation "measure id") auto

declare string_of_nat.simps [simp del]

text \<open>\<^verbatim>\<open>f"pos_{i}"\<close>\<close>

definition pos_name :: "nat \<Rightarrow> string" where
  "pos_name i = ''pos_'' @ string_of_nat i"

text \<open>\<^verbatim>\<open>lambda x: x[block].sum(axis=1)\<close>\<close>

definition block_sum :: "frame \<Rightarrow> string list \<Rightarrow> error + cell list" where
  "block_sum x block = and_then (getitem x block) sum_axis1"

text \<open>\<^verbatim>\<open>df.assign(name=lambda x: x[block].sum(axis=1))\<close>\<close>

definition assign_sum :: "frame \<Rightarrow> string \<Rightarrow> string list \<Rightarrow> error + frame" where
  "assign_sum df name block = and_then (block_sum df block) (\<lambda>s. Inr (assign df name s))"

definition aggregate_gene_body_coverage :: "frame \<Rightarrow> error + frame" where
  "aggregate_gene_body_coverage df =
     (let cols = map pos_name [0..<101];
          five_prime = take 33 cols;
          middle = drop 33 (take 68 cols);
          three_prime = drop 68 cols
      in and_then (assign_sum df ''gene_body_five_prime'' five_prime) (\<lambda>df1.
         and_then (assign_sum df1 ''gene_body_middle'' middle) (\<lambda>df2.
         and_then (assign_sum df2 ''gene_body_three_prime'' three_prime) (\<lambda>df3.
         drop_columns df3 cols))))"

section \<open>The source loader\<close>

text \<open>
  Files: a parquet file holds a frame; a tab-separated text file holds named columns of
  fields (\<^verbatim>\<open>pd.read_table\<close> takes the names from the first line). The run and sample
  identifiers of the text files are read as strings. A path without a file is a
  FileNotFoundError, a file of the other kind does not parse, an empty text file is an
  EmptyDataError.
\<close>

type_synonym text_table = "(string \<times> string list) list"

datatype file_content = Parquet frame | Text text_table

type_synonym filesystem = "string \<Rightarrow> file_content option"

definition read_parquet :: "filesystem \<Rightarrow> string \<Rightarrow> error + frame" where
  "read_parquet fs p =
     (case fs p of
        None \<Rightarrow> Inl (FileNotFoundError p)
      | Some (Parquet df) \<Rightarrow> Inr df
      | Some (Text t) \<Rightarrow> Inl (ParserError p))"

definition read_table :: "filesystem \<Rightarrow> string \<Rightarrow> error + text_table" where
  "read_table fs p =
     (case fs p of
        None \<Rightarrow> Inl (FileNotFoundError p)
      | Some (Text t) \<Rightarrow> (if t = [] then Inl EmptyDataError else Inr t)
      | Some (Parquet df) \<Rightarrow> Inl (ParserError p))"

text \<open>The positions of a label in an index, in increasing order.\<close>

definition positions :: "string list \<Rightarrow> string \<Rightarrow> nat list" where
  "positions idx r = filter (\<lambda>j. idx ! j = r) [0..<length idx]"

definition locate :: "string list \<Rightarrow> string \<Rightarrow> nat option" where
  "locate idx r = (case positions idx r of [] \<Rightarrow> None | j # js \<Rightarrow> Some j)"

text \<open>The cells of a column at the given row positions; a missing cell where there is none.\<close>

definition take_rows :: "nat option list \<Rightarrow> cell list \<Rightarrow> cell list" where
  "take_rows ps c = map (\<lambda>p. case p of None \<Rightarrow> NaN | Some j \<Rightarrow> c ! j) ps"

definition realign :: "string list \<Rightarrow> frame \<Rightarrow> frame" where
  "realign target df =
     \<lparr>index = target,
      columns = map (\<lambda>c. (fst c, take_rows (map (locate (index df)) target) (snd c))) (columns df)\<rparr>"

text \<open>
  \<^verbatim>\<open>pd.concat(dfs, axis=1, sort=False)\<close>: the columns side by side. Frames with one
  and the same index are pasted as they are; otherwise the rows are the union of the
  indexes in order of first appearance, every frame is realigned to it, and an index
  with a repeated label cannot be realigned.
\<close>

definition concat_axis1 :: "frame list \<Rightarrow> error + frame" where
  "concat_axis1 dfs =
     (case dfs of
        [] \<Rightarrow> Inl ValueError
      | d # ds \<Rightarrow>
          if list_all (\<lambda>x. index x = index d) ds
          then Inr \<lparr>index = index d, columns = concat (map columns dfs)\<rparr>
          else if list_ex (\<lambda>x. \<not> distinct (index x)) dfs then Inl InvalidIndexError
          else let u = rev (remdups (rev (concat (map index dfs))))
               in Inr \<lparr>index = u, columns = concat (map (\<lambda>x. columns (realign u x)) dfs)\<rparr>)"

text \<open>
  \<^verbatim>\<open>df.reindex(srrs)\<close>: the rows of the requested labels in the requested order, a
  row of missing cells for a label the frame does not have. A frame whose index repeats a
  label cannot be reindexed (ValueError), unless the request is its index.
\<close>

definition reindex :: "frame \<Rightarrow> string list \<Rightarrow> error + frame" where
  "reindex df srrs =
     (if index df = srrs then Inr df
      else if \<not> distinct (index df) then Inl ValueError
      else Inr (realign srrs df))"

text \<open>
  \<^verbatim>\<open>pool.map\<close> returns the tables in the order of the paths; \<^verbatim>\<open>rename_axis\<close> only
  names the index.
\<close>

definition workflow_data :: "filesystem \<Rightarrow> string list \<Rightarrow> (string \<times> string) list \<Rightarrow> error + frame" where
  "workflow_data fs srrs workflow_folders =
     and_then (collect (map (\<lambda>e. read_parquet fs (snd e)) workflow_folders)) (\<lambda>dfs.
     and_then (concat_axis1 dfs) (\<lambda>df.
     reindex df srrs))"

section \<open>The sample aggregator\<close>

datatype agg = Mean | Sum

definition FEATURE_AGG :: "(string \<times> agg) list" where
  "FEATURE_AGG =
     [(''rRNA_pct_reads_mapped'', Mean),
      (''too_short'', Sum),
      (''num_reads'', Sum),
      (''num_multimappers'', Sum),
      (''per_alignment'', Mean),
      (''reads_MQ0'', Sum),
      (''average_quality'', Mean),
      (''Percent Reverse'', Mean),
      (''percent_utr_bases'', Mean),
      (''percent_intronic_bases'', Mean),
      (''percent_intergenic_bases'', Mean),
      (''percent_mrna_bases'', Mean),
      (''median_cv_coverage'', Mean),
      (''percent_duplication'', Mean),
      (''number_genic_reads'', Sum),
      (''percent_genes_on'', Mean),
      (''number_junction_reads'', Sum),
      (''number_junctions_on'', Sum),
      (''gene_body_five_prime'', Mean),
      (''gene_body_middle'', Mean),
      (''gene_body_three_prime'', Mean)]"

definition FEATURE_RENAME :: "(string \<times> string) list" where
  "FEATURE_RENAME =
     [(''rRNA_pct_reads_mapped'', ''percent_rrna_reads''),
      (''too_short'', ''number_reads_too_short''),
      (''num_reads'', ''number_reads''),
      (''num_multimappers'', ''number_multimapping_reads''),
      (''per_alignment'', ''percent_alignment''),
      (''Percent Reverse'', ''percent_reverse'')]"

text \<open>
  \<^verbatim>\<open>left.join(right)\<close>: a left join on the row labels. Every left row, in order, once
  for each right row of its label, or once with missing cells when the right frame has no
  such row. Labels common to both frames' columns are a ValueError (no suffix is given).
\<close>

definition join_rows :: "string list \<Rightarrow> string list \<Rightarrow> (nat \<times> nat option) list" where
  "join_rows left right =
     concat (map (\<lambda>i. case positions right (left ! i) of
                          [] \<Rightarrow> [(i, None)]
                        | j # js \<Rightarrow> map (\<lambda>j'. (i, Some j')) (j # js))
                 [0..<length left])"

definition join :: "frame \<Rightarrow> frame \<Rightarrow> error + frame" where
  "join df other =
     (if list_ex (\<lambda>l. l \<in> set (labels other)) (labels df) then Inl ValueError
      else let rows = join_rows (index df) (index other)
           in Inr \<lparr>index = map (\<lambda>p. index df ! fst p) rows,
                   columns =
                     map (\<lambda>c. (fst c, take_rows (map (\<lambda>p. Some (fst p)) rows) (snd c))) (columns df) @
                     map (\<lambda>c. (fst c, take_rows (map snd rows) (snd c))) (columns other)\<rparr>)"

text \<open>
  \<^verbatim>\<open>df.groupby(key).agg(spec)\<close>. The groups are the distinct keys of column \<open>key\<close> in
  sorted order; rows with a missing key belong to no group. The key column here is the
  manifest's \<open>srx\<close>, whose cells are strings or missing (a numeric key does not occur);
  two columns labelled \<open>key\<close> are a ValueError. For every entry of \<open>spec\<close>, in its order,
  the columns of that label are reduced group by group: \<^verbatim>\<open>sum\<close> adds the present
  values (0.0 when there is none), \<^verbatim>\<open>mean\<close> averages them (missing when there is
  none). A label of \<open>spec\<close> that is not a column (the key column is not one) is a KeyError;
  a string cell in a reduced group is reported as TypeError.
\<close>

definition present :: "cell list \<Rightarrow> real list" where
  "present cs = concat (map (\<lambda>c. case c of Num x \<Rightarrow> [x] | Str s \<Rightarrow> [] | NaN \<Rightarrow> []) cs)"

definition reduce :: "agg \<Rightarrow> cell list \<Rightarrow> error + cell" where
  "reduce f cs =
     (if list_ex is_str cs then Inl TypeError
      else case f of
             Sum \<Rightarrow> Inr (Num (sum_list (present cs)))
           | Mean \<Rightarrow> Inr (if present cs = [] then NaN
                          else Num (sum_list (present cs) / real (length (present cs)))))"

definition group_keys :: "cell list \<Rightarrow> string list" where
  "group_keys kc =
     sort (remdups (concat (map (\<lambda>c. case c of Str s \<Rightarrow> [s] | Num x \<Rightarrow> [] | NaN \<Rightarrow> []) kc)))"

definition group_rows :: "cell list \<Rightarrow> string \<Rightarrow> nat list" where
  "group_rows kc k = filter (\<lambda>i. kc ! i = Str k) [0..<length kc]"

definition agg_column :: "cell list \<Rightarrow> string list \<Rightarrow> agg \<Rightarrow> string \<times> cell list \<Rightarrow> error + string \<times> cell list" where
  "agg_column kc keys f c =
     and_then (collect (map (\<lambda>k. reduce f (map (\<lambda>i. snd c ! i) (group_rows kc k))) keys))
       (\<lambda>v. Inr (fst c, v))"

definition groupby_agg :: "frame \<Rightarrow> string \<Rightarrow> (string \<times> agg) list \<Rightarrow> error + frame" where
  "groupby_agg df key spec =
     (case filter (\<lambda>c. fst c = key) (columns df) of
        [] \<Rightarrow> Inl (KeyError [key])
      | [kc] \<Rightarrow>
          (let absent = filter (\<lambda>k. k \<notin> set (labels df) \<or> k = key) (map fst spec);
               keys = group_keys (snd kc)
           in if absent \<noteq> [] then Inl (KeyError absent)
              else and_then
                     (collect (concat (map (\<lambda>e. map (agg_column (snd kc) keys (snd e))
                                                   (filter (\<lambda>c. fst c = fst e) (columns df)))
                                           spec)))
                     (\<lambda>cols. Inr \<lparr>index = keys, columns = cols\<rparr>))
      | kc # kc' # kcs \<Rightarrow> Inl ValueError)"


section \<open>The pipeline\<close>

definition feature_dict :: "string \<Rightarrow> (string \<times> string) list" where
  "feature_dict Features =
     [(''layout'', Features @ ''/layout.parquet''),
      (''fastq_screen'', Features @ ''/fastq_screen.parquet''),
      (''atropos'', Features @ ''/atropos.parquet''),
      (''hisat2'', Features @ ''/hisat2.parquet''),
      (''aln_stats'', Features @ ''/aln_stats.parquet''),
      (''rnaseqmetrics'', Features @ ''/rnaseqmetrics.parquet''),
      (''genebody_coverage'', Features @ ''/genebody_coverage.parquet''),
      (''markduplicates'', Features @ ''/markduplicates.parquet''),
      (''count_summary'', Features @ ''/count_summary.parquet'')]"

text \<open>
  The manifest: a one-column table is a list of runs, a two-column table gives the sample
  and the run of each line; the columns are named accordingly, whatever the first line
  calls them. \<^verbatim>\<open>set_index("srr", drop=False)\<close> labels the rows by run and keeps the
  column; it is a KeyError when no column is called \<open>srr\<close>.
\<close>

definition name_columns :: "text_table \<Rightarrow> text_table" where
  "name_columns t =
     (if length t = 1 then zip [''srr''] (map snd t)
      else if length t = 2 then zip [''srx'', ''srr''] (map snd t)
      else t)"

definition set_index_srr :: "text_table \<Rightarrow> error + frame" where
  "set_index_srr t =
     (case map_of t ''srr'' of
        None \<Rightarrow> Inl (KeyError [''srr''])
      | Some ids \<Rightarrow> Inr \<lparr>index = ids, columns = map (\<lambda>c. (fst c, map Str (snd c))) t\<rparr>)"

definition load_manifest :: "filesystem \<Rightarrow> string \<Rightarrow> error + frame" where
  "load_manifest fs input = and_then (read_table fs input) (\<lambda>t. set_index_srr (name_columns t))"

text \<open>\<^verbatim>\<open>pd.read_table(done_sample_file)["srr"].values.tolist()\<close>\<close>

definition load_done :: "filesystem \<Rightarrow> string \<Rightarrow> error + string list" where
  "load_done fs Features =
     and_then (read_table fs (Features @ ''/done_sample.txt'')) (\<lambda>t.
       case map_of t ''srr'' of None \<Rightarrow> Inl (KeyError [''srr'']) | Some ids \<Rightarrow> Inr ids)"

text \<open>
  The chain of \<^verbatim>\<open>build_features\<close> up to the table handed to \<^verbatim>\<open>to_parquet\<close>: the
  manifest and the completion list are read first, and the manifest's width selects the
  grouped or the ungrouped chain.
\<close>

definition feature_table :: "filesystem \<Rightarrow> string \<Rightarrow> string \<Rightarrow> error + frame" where
  "feature_table fs input Features =
     and_then (load_manifest fs input) (\<lambda>srr_df.
     and_then (load_done fs Features) (\<lambda>done_srrs.
       if length (columns srr_df) = 2
       then and_then (workflow_data fs done_srrs (feature_dict Features)) (\<lambda>wd.
            and_then (join wd srr_df) (\<lambda>joined.
            and_then (aggregate_gene_body_coverage joined) (\<lambda>df.
            and_then (groupby_agg df ''srx'' FEATURE_AGG) (\<lambda>g.
            Inr (rename_columns FEATURE_RENAME g)))))
       else and_then (workflow_data fs done_srrs (feature_dict Features)) (\<lambda>wd.
            and_then (join wd srr_df) (\<lambda>joined.
            and_then (aggregate_gene_body_coverage joined) (\<lambda>df.
            and_then (getitem df (map fst FEATURE_AGG)) (\<lambda>g.
            Inr (rename_columns FEATURE_RENAME g)))))))"

text \<open>
  The tables either chain has on the way: after \<^verbatim>\<open>.join(srr_df)\<close>, and after
  \<^verbatim>\<open>.pipe(aggregate_gene_body_coverage)\<close>.
\<close>

definition joined_table :: "filesystem \<Rightarrow> string \<Rightarrow> string \<Rightarrow> error + frame" where
  "joined_table fs input Features =
     and_then (load_manifest fs input) (\<lambda>srr_df.
     and_then (load_done fs Features) (\<lambda>done_srrs.
     and_then (workflow_data fs done_srrs (feature_dict Features)) (\<lambda>wd.
     join wd srr_df)))"

definition reduced_table :: "filesystem \<Rightarrow> string \<Rightarrow> string \<Rightarrow> error + frame" where
  "reduced_table fs input Features =
     and_then (joined_table fs input Features) aggregate_gene_body_coverage"

text \<open>
  \<^verbatim>\<open>build_features\<close>: the write of \<^verbatim>\<open>features.parquet\<close> is the last call of the
  chain, so an exception anywhere before it leaves the files as they were.
\<close>

definition build_features :: "string \<Rightarrow> string \<Rightarrow> filesystem \<Rightarrow> error option \<times> filesystem" where
  "build_features input Features fs =
     (case feature_table fs input Features of
        Inl e \<Rightarrow> (Some e, fs)
      | Inr out \<Rightarrow> (None, fs(Features @ ''/features.parquet'' := Some (Parquet out))))"

text \<open>The names of the three columns the reducer adds.\<close>

definition tertiles :: "string list" where
  "tertiles = [''gene_body_five_prime'', ''gene_body_middle'', ''gene_body_three_prime'']"

section \<open>Example tables\<close>

text \<open>
  A table with a run whose 101 positions are all 1.0 and a run whose positions are all
  missing, besides a column that is not a position; and a table that lacks \<open>pos_100\<close>.
\<close>

definition ones_table :: frame where
  "ones_table =
     \<lparr>index = [''R1'', ''R2''],
      columns = (''layout'', [Str ''PE'', Str ''SE'']) # map (\<lambda>k. (pos_name k, [Num 1, NaN])) [0..<101]\<rparr>"


text \<open>A single source table with two runs.\<close>

definition two_runs :: frame where
  "two_runs = \<lparr>index = [''R1'', ''R2''], columns = [(''num_reads'', [Num 10, Num 20])]\<rparr>"

definition one_source :: filesystem where
  "one_source = (\<lambda>p. if p = ''Features/aln_stats.parquet'' then Some (Parquet two_runs) else None)"


definition coverage_table :: frame where
  "coverage_table = \<lparr>index = [''R1'', ''R2''], columns = map (\<lambda>k. (pos_name k, [Num 1, Num 2])) [0..<101]\<rparr>"

definition empty_table :: frame where
  "empty_table = \<lparr>index = [], columns = []\<rparr>"








text \<open>The scenario without the metrics table: \<open>aln_stats.parquet\<close> has no columns.\<close>

definition scenario_no_metrics :: filesystem where
  "scenario_no_metrics =
     (\<lambda>p. if p = ''manifest.tsv''
            then Some (Text [(''sample'', [''S1'', ''S1'', ''S2'']), (''run'', [''R1'', ''R2'', ''R3''])])
          else if p = ''out/Features/done_sample.txt'' then Some (Text [(''srr'', [''R1'', ''R2'', ''R3''])])
          else if p = ''out/Features/genebody_coverage.parquet'' then Some (Parquet coverage_table)
          else if p \<in> set (map snd (feature_dict ''out/Features'')) then Some (Parquet empty_table)
          else None)"

section \<open>Results are sequenced as exceptions are\<close>

declare upt_rec_numeral [simp del]

lemma and_then_Inr_iff: "and_then m f = Inr y \<longleftrightarrow> (\<exists>x. m = Inr x \<and> f x = Inr y)"
  by (cases m) (simp_all add: and_then_def)

lemma and_then_Inr [simp]: "and_then (Inr x) f = f x"
  by (simp add: and_then_def)

lemma and_then_Inl [simp]: "and_then (Inl e) f = Inl e"
  by (simp add: and_then_def)

text \<open>The feature table in terms of the reduced table.\<close>

lemma feature_table_alt:
  "feature_table fs input Features =
     and_then (load_manifest fs input) (\<lambda>srr_df.
     and_then (reduced_table fs input Features) (\<lambda>df.
       if length (columns srr_df) = 2
       then and_then (groupby_agg df ''srx'' FEATURE_AGG) (\<lambda>g. Inr (rename_columns FEATURE_RENAME g))
       else and_then (getitem df (map fst FEATURE_AGG)) (\<lambda>g. Inr (rename_columns FEATURE_RENAME g))))"
  by (simp add: feature_table_def reduced_table_def joined_table_def and_then_def split: sum.splits)

subsection \<open>Position labels\<close>

lemma pos_name_hd: "hd (pos_name k) = CHR ''p''"
  by (simp add: pos_name_def)

lemma tertile_not_pos:
  "''gene_body_five_prime'' \<noteq> pos_name k"
  "''gene_body_middle'' \<noteq> pos_name k"
  "''gene_body_three_prime'' \<noteq> pos_name k"
  by (simp_all add: pos_name_def)

lemma distinct_pos: "distinct (map pos_name [0..<101])"
  by code_simp

lemma inj_pos: "i < 101 \<Longrightarrow> j < 101 \<Longrightarrow> pos_name i = pos_name j \<Longrightarrow> i = j"
  using distinct_pos by (simp add: distinct_map inj_on_def)

lemma blocks:
  "take 33 (map pos_name [0..<101]) = map pos_name [0..<33]"
  "drop 33 (take 68 (map pos_name [0..<101])) = map pos_name [33..<68]"
  "drop 68 (map pos_name [0..<101]) = map pos_name [68..<101]"
  by (simp_all add: take_map drop_map take_upt drop_upt del: upt_Suc)

lemma aggregate_unfold:
  "aggregate_gene_body_coverage df =
     and_then (assign_sum df ''gene_body_five_prime'' (map pos_name [0..<33])) (\<lambda>df1.
     and_then (assign_sum df1 ''gene_body_middle'' (map pos_name [33..<68])) (\<lambda>df2.
     and_then (assign_sum df2 ''gene_body_three_prime'' (map pos_name [68..<101])) (\<lambda>df3.
     drop_columns df3 (map pos_name [0..<101]))))"
  unfolding aggregate_gene_body_coverage_def Let_def blocks ..

lemma pos_split:
  "map pos_name [0..<101] = map pos_name [0..<33] @ map pos_name [33..<68] @ map pos_name [68..<101]"
proof -
  have "[0..<101] = [0..<33] @ [33..<68] @ [68..<101]"
    by code_simp
  then show ?thesis by (simp only: map_append)
qed

subsection \<open>Assigning and selecting columns\<close>

lemma index_assign [simp]: "index (assign df n v) = index df"
  by (simp add: assign_def)

lemma labels_assign_list:
  "labels (assign df n v) = (if n \<in> set (labels df) then labels df else labels df @ [n])"
proof -
  have "map fst (map (\<lambda>c. if fst c = n then (n, v) else c) cs) = map fst cs" for cs :: "(string \<times> cell list) list"
    by (induction cs) auto
  then show ?thesis by (simp add: assign_def labels_def)
qed

lemma labels_assign: "set (labels (assign df n v)) = insert n (set (labels df))"
  by (auto simp: labels_assign_list)

lemma filter_replace_other:
  "k \<noteq> n \<Longrightarrow> filter (\<lambda>c. fst c = k) (map (\<lambda>c. if fst c = n then (n, v) else c) cs) = filter (\<lambda>c. fst c = k) cs"
  by (induction cs) auto

lemma filter_assign_other:
  "k \<noteq> n \<Longrightarrow> filter (\<lambda>c. fst c = k) (columns (assign df n v)) = filter (\<lambda>c. fst c = k) (columns df)"
  by (simp add: assign_def filter_replace_other)

lemma select_assign: "n \<notin> set ks \<Longrightarrow> select_columns (assign df n v) ks = select_columns df ks"
  by (induction ks) (auto simp: select_columns_def filter_assign_other)

lemma missing_assign: "n \<notin> set ks \<Longrightarrow> missing_labels (assign df n v) ks = missing_labels df ks"
  unfolding missing_labels_def by (rule filter_cong) (auto simp: labels_assign)


lemma missing_Nil_iff: "missing_labels df ks = [] \<longleftrightarrow> set ks \<subseteq> set (labels df)"
  by (auto simp: missing_labels_def filter_empty_conv)

lemma getitem_assign:
  assumes "n \<notin> set ks"
  shows "getitem (assign df n v) ks = getitem df ks"
proof -
  have "(assign df n v)\<lparr>columns := X\<rparr> = df\<lparr>columns := X\<rparr>" for X
    by (simp add: assign_def)
  then show ?thesis
    unfolding getitem_def missing_assign [OF assms] select_assign [OF assms] by simp
qed

lemma block_sum_assign: "n \<notin> set ks \<Longrightarrow> block_sum (assign df n v) ks = block_sum df ks"
  by (simp add: block_sum_def getitem_assign)

lemma block_sum_Inr_iff:
  "block_sum df ks = Inr s \<longleftrightarrow>
     set ks \<subseteq> set (labels df) \<and>
     \<not> list_ex (\<lambda>c. list_ex is_str (snd c)) (select_columns df ks) \<and>
     s = map (\<lambda>i. Num (sum_list (map (\<lambda>c. num (snd c ! i)) (select_columns df ks)))) [0..<length (index df)]"
  by (auto simp: block_sum_def getitem_def sum_axis1_def missing_Nil_iff)


lemma assign_sum_Inr_iff:
  "assign_sum df n ks = Inr df' \<longleftrightarrow> (\<exists>s. block_sum df ks = Inr s \<and> df' = assign df n s)"
  by (auto simp: assign_sum_def and_then_Inr_iff)

lemma tertile_notin_block:
  "''gene_body_five_prime'' \<notin> set (map pos_name ks)"
  "''gene_body_middle'' \<notin> set (map pos_name ks)"
  "''gene_body_three_prime'' \<notin> set (map pos_name ks)"
  using tertile_not_pos by auto

lemma drop_columns_Inr_iff:
  "drop_columns df ks = Inr df' \<longleftrightarrow>
     set ks \<subseteq> set (labels df) \<and> df' = df\<lparr>columns := filter (\<lambda>c. fst c \<notin> set ks) (columns df)\<rparr>"
  by (auto simp: drop_columns_def missing_Nil_iff)

text \<open>Three sums assigned in a row, then the summed columns dropped.\<close>

lemma three_stage:
  assumes n: "n1 \<notin> set P" "n2 \<notin> set P" "n3 \<notin> set P" and P: "P = B1 @ B2 @ B3"
  shows "and_then (assign_sum df n1 B1) (\<lambda>df1.
         and_then (assign_sum df1 n2 B2) (\<lambda>df2.
         and_then (assign_sum df2 n3 B3) (\<lambda>df3. drop_columns df3 P))) = Inr df' \<longleftrightarrow>
     (\<exists>s1 s2 s3.
        block_sum df B1 = Inr s1 \<and> block_sum df B2 = Inr s2 \<and> block_sum df B3 = Inr s3 \<and>
        df' = \<lparr>index = index df,
               columns = filter (\<lambda>c. fst c \<notin> set P)
                 (columns (assign (assign (assign df n1 s1) n2 s2) n3 s3))\<rparr>)"
  (is "?L \<longleftrightarrow> ?R")
proof -
  have nb: "n1 \<notin> set B2" "n1 \<notin> set B3" "n2 \<notin> set B3"
    using n P by auto
  have sub: "set (labels (assign (assign (assign df n1 s1) n2 s2) n3 s3)) \<supseteq> set P
      \<longleftrightarrow> set P \<subseteq> set (labels df)" for s1 s2 s3
    using n by (auto simp: labels_assign)
  have rec: "(assign (assign (assign df n1 s1) n2 s2) n3 s3)\<lparr>columns := cs\<rparr> = \<lparr>index = index df, columns = cs\<rparr>"
    for s1 s2 s3 cs
    by (simp add: assign_def)
  have "?L \<longleftrightarrow> (\<exists>s1 s2 s3.
        block_sum df B1 = Inr s1 \<and> block_sum df B2 = Inr s2 \<and> block_sum df B3 = Inr s3 \<and>
        drop_columns (assign (assign (assign df n1 s1) n2 s2) n3 s3) P = Inr df')"
    unfolding and_then_Inr_iff assign_sum_Inr_iff
    by (auto simp: block_sum_assign nb)
  also have "\<dots> \<longleftrightarrow> ?R"
    unfolding drop_columns_Inr_iff sub rec
    by (auto simp: block_sum_Inr_iff P)
  finally show ?thesis .
qed

lemma aggregate_Inr_iff:
  "aggregate_gene_body_coverage df = Inr df' \<longleftrightarrow>
     (\<exists>s1 s2 s3.
        block_sum df (map pos_name [0..<33]) = Inr s1 \<and>
        block_sum df (map pos_name [33..<68]) = Inr s2 \<and>
        block_sum df (map pos_name [68..<101]) = Inr s3 \<and>
        df' = \<lparr>index = index df,
               columns = filter (\<lambda>c. fst c \<notin> set (map pos_name [0..<101]))
                 (columns (assign (assign (assign df ''gene_body_five_prime'' s1)
                    ''gene_body_middle'' s2) ''gene_body_three_prime'' s3))\<rparr>)"
  unfolding aggregate_unfold
  by (rule three_stage [OF tertile_notin_block pos_split])

section \<open>The coverage reducer: what it computes\<close>

lemma map_of_filter_fst:
  "map_of (filter (\<lambda>c. P (fst c)) cs) k = (if P k then map_of cs k else None)"
  by (induction cs) auto

lemma map_of_replace_other:
  "k \<noteq> n \<Longrightarrow> map_of (map (\<lambda>c. if fst c = n then (n, v) else c) cs) k = map_of cs k"
  by (induction cs) auto

lemma map_of_replace_same:
  "n \<in> fst ` set cs \<Longrightarrow> map_of (map (\<lambda>c. if fst c = n then (n, v) else c) cs) n = Some v"
  by (induction cs) auto

lemma map_of_assign:
  "map_of (columns (assign df n v)) k = (if k = n then Some v else map_of (columns df) k)"
proof (cases "n \<in> set (labels df)")
  case True
  then show ?thesis
    by (simp add: assign_def labels_def map_of_replace_other map_of_replace_same)
next
  case False
  then have "map_of (columns df) n = None"
    by (simp add: labels_def map_of_eq_None_iff)
  with False show ?thesis
    by (simp add: assign_def map_add_def map_of_append split: option.split)
qed

lemma column_assign: "column (assign df n v) k = (if k = n then v else column df k)"
  by (simp add: column_def map_of_assign)

lemma filter_label_none: "k \<notin> fst ` set cs \<Longrightarrow> filter (\<lambda>c. fst c = k) cs = []"
  by (induction cs) auto

lemma count_list_0: "count_list xs x = 0 \<longleftrightarrow> x \<notin> set xs"
  by (induction xs) auto

lemma filter_label_once:
  "count_list (map fst cs) k = 1 \<Longrightarrow>
     filter (\<lambda>c. fst c = k) cs = [(k, case map_of cs k of None \<Rightarrow> [] | Some c \<Rightarrow> c)]"
proof (induction cs)
  case Nil
  then show ?case by simp
next
  case (Cons c cs)
  show ?case
  proof (cases "fst c = k")
    case True
    with Cons.prems have "count_list (map fst cs) k = 0" by simp
    then have "k \<notin> fst ` set cs" by (simp add: count_list_0)
    with True show ?thesis by (cases c) (simp add: filter_label_none)
  next
    case False
    with Cons show ?thesis by (cases c) auto
  qed
qed

lemma select_once:
  "\<forall>k\<in>set ks. count_list (labels df) k = 1 \<Longrightarrow>
     select_columns df ks = map (\<lambda>k. (k, column df k)) ks"
  by (induction ks) (simp_all add: select_columns_def labels_def column_def filter_label_once)

lemma block_sum_once:
  assumes once: "\<forall>k\<in>set ks. count_list (labels df) k = 1"
      and numeric: "\<forall>k\<in>set ks. \<not> list_ex is_str (column df k)"
  shows "block_sum df ks =
     Inr (map (\<lambda>i. Num (sum_list (map (\<lambda>k. num (column df k ! i)) ks))) [0..<length (index df)])"
proof -
  have sub: "set ks \<subseteq> set (labels df)"
  proof
    fix k assume "k \<in> set ks"
    with once have "count_list (labels df) k \<noteq> 0" by simp
    then show "k \<in> set (labels df)" by (simp add: count_list_0)
  qed
  have sel: "select_columns df ks = map (\<lambda>k. (k, column df k)) ks"
    using once by (rule select_once)
  have "\<not> list_ex (\<lambda>c. list_ex is_str (snd c)) (select_columns df ks)"
    using numeric by (simp add: sel list_ex_iff)
  with sub show ?thesis
    by (simp add: block_sum_Inr_iff sel o_def)
qed

lemma aggregate_columns:
  assumes "aggregate_gene_body_coverage df = Inr df'"
  shows "index df' = index df"
    and "block_sum df (map pos_name [0..<33]) = Inr (column df' ''gene_body_five_prime'')"
    and "block_sum df (map pos_name [33..<68]) = Inr (column df' ''gene_body_middle'')"
    and "block_sum df (map pos_name [68..<101]) = Inr (column df' ''gene_body_three_prime'')"
    and "columns df' = filter (\<lambda>c. fst c \<notin> set (map pos_name [0..<101]))
           (columns (assign (assign (assign df ''gene_body_five_prime'' (column df' ''gene_body_five_prime''))
              ''gene_body_middle'' (column df' ''gene_body_middle''))
              ''gene_body_three_prime'' (column df' ''gene_body_three_prime'')))"
proof -
  from assms obtain s1 s2 s3 where
    s: "block_sum df (map pos_name [0..<33]) = Inr s1"
       "block_sum df (map pos_name [33..<68]) = Inr s2"
       "block_sum df (map pos_name [68..<101]) = Inr s3" and
    d: "df' = \<lparr>index = index df,
               columns = filter (\<lambda>c. fst c \<notin> set (map pos_name [0..<101]))
                 (columns (assign (assign (assign df ''gene_body_five_prime'' s1)
                    ''gene_body_middle'' s2) ''gene_body_three_prime'' s3))\<rparr>"
    unfolding aggregate_Inr_iff by blast
  have c: "column df' ''gene_body_five_prime'' = s1" "column df' ''gene_body_middle'' = s2"
    "column df' ''gene_body_three_prime'' = s3"
    unfolding d column_def
    by (simp_all only: frame.simps map_of_filter_fst [where P = "\<lambda>l. l \<notin> set (map pos_name [0..<101])"]
          tertile_notin_block map_of_assign) simp_all
  show "index df' = index df" by (simp add: d)
  show "block_sum df (map pos_name [0..<33]) = Inr (column df' ''gene_body_five_prime'')"
    "block_sum df (map pos_name [33..<68]) = Inr (column df' ''gene_body_middle'')"
    "block_sum df (map pos_name [68..<101]) = Inr (column df' ''gene_body_three_prime'')"
    by (simp_all only: c s)
  show "columns df' = filter (\<lambda>c. fst c \<notin> set (map pos_name [0..<101]))
           (columns (assign (assign (assign df ''gene_body_five_prime'' (column df' ''gene_body_five_prime''))
              ''gene_body_middle'' (column df' ''gene_body_middle''))
              ''gene_body_three_prime'' (column df' ''gene_body_three_prime'')))"
    unfolding c by (simp only: d frame.simps)
qed

lemma aggregate_succeeds:
  assumes once: "\<forall>k<101. count_list (labels df) (pos_name k) = 1"
      and numeric: "\<forall>k<101. \<not> list_ex is_str (column df (pos_name k))"
  shows "\<exists>df'. aggregate_gene_body_coverage df = Inr df'"
    and "a \<le> b \<Longrightarrow> b \<le> 101 \<Longrightarrow> block_sum df (map pos_name [a..<b]) =
       Inr (map (\<lambda>i. Num (\<Sum>k = a..<b. num (column df (pos_name k) ! i))) [0..<length (index df)])"
proof -
  show b: "block_sum df (map pos_name [a..<b]) =
       Inr (map (\<lambda>i. Num (\<Sum>k = a..<b. num (column df (pos_name k) ! i))) [0..<length (index df)])"
    if "a \<le> b" "b \<le> 101" for a b
  proof -
    have "\<forall>k\<in>set (map pos_name [a..<b]). count_list (labels df) k = 1"
      "\<forall>k\<in>set (map pos_name [a..<b]). \<not> list_ex is_str (column df k)"
      using once numeric that by auto
    then show ?thesis
      by (simp add: block_sum_once o_def interv_sum_list_conv_sum_set_nat del: upt_Suc)
  qed
  have b1: "\<exists>s. block_sum df (map pos_name [0..<33]) = Inr s"
    by (rule exI, rule b) simp_all
  have b2: "\<exists>s. block_sum df (map pos_name [33..<68]) = Inr s"
    by (rule exI, rule b) simp_all
  have b3: "\<exists>s. block_sum df (map pos_name [68..<101]) = Inr s"
    by (rule exI, rule b) simp_all
  from b1 b2 b3 show "\<exists>df'. aggregate_gene_body_coverage df = Inr df'"
    unfolding aggregate_Inr_iff by blast
qed

lemma aggregate_row_sums:
  assumes once: "\<forall>k<101. count_list (labels df) (pos_name k) = 1"
      and numeric: "\<forall>k<101. \<not> list_ex is_str (column df (pos_name k))"
  shows "\<exists>df'. aggregate_gene_body_coverage df = Inr df' \<and> index df' = index df \<and>
     (\<forall>i<length (index df).
        column df' ''gene_body_five_prime'' ! i = Num (\<Sum>k = 0..<33. num (column df (pos_name k) ! i)) \<and>
        column df' ''gene_body_middle'' ! i = Num (\<Sum>k = 33..<68. num (column df (pos_name k) ! i)) \<and>
        column df' ''gene_body_three_prime'' ! i = Num (\<Sum>k = 68..<101. num (column df (pos_name k) ! i)))"
proof -
  from aggregate_succeeds(1) [OF once numeric] obtain df'
    where df': "aggregate_gene_body_coverage df = Inr df'" ..
  note c = aggregate_columns [OF df']
  note b = aggregate_succeeds(2) [OF once numeric]
  have "column df' ''gene_body_five_prime'' =
          map (\<lambda>i. Num (\<Sum>k = 0..<33. num (column df (pos_name k) ! i))) [0..<length (index df)]"
    using c(2) b [of 0 33] by simp
  moreover have "column df' ''gene_body_middle'' =
          map (\<lambda>i. Num (\<Sum>k = 33..<68. num (column df (pos_name k) ! i))) [0..<length (index df)]"
    using c(3) b [of 33 68] by simp
  moreover have "column df' ''gene_body_three_prime'' =
          map (\<lambda>i. Num (\<Sum>k = 68..<101. num (column df (pos_name k) ! i))) [0..<length (index df)]"
    using c(4) b [of 68 101] by simp
  ultimately show ?thesis
    using df' c(1) by (intro exI [of _ df']) simp
qed



lemma count_list_distinct: "distinct xs \<Longrightarrow> x \<in> set xs \<Longrightarrow> count_list xs x = 1"
  by (induction xs) (auto simp: count_list_0)

lemma coverage_columns:
  assumes "k < 101" "l \<notin> range pos_name"
  shows "count_list (l # map pos_name [0..<101]) (pos_name k) = 1"
    and "map_of ((l, w) # map (\<lambda>k. (pos_name k, v)) [0..<101]) (pos_name k) = Some v"
proof -
  have "pos_name k \<in> set (map pos_name [0..<101])"
    using assms(1) by simp
  then have "count_list (map pos_name [0..<101]) (pos_name k) = 1"
    by (rule count_list_distinct [OF distinct_pos])
  with assms(2) show "count_list (l # map pos_name [0..<101]) (pos_name k) = 1"
    by auto
  have "(pos_name k, v) \<in> set (map (\<lambda>k. (pos_name k, v)) [0..<101])"
    using assms(1) by auto
  then obtain x where x: "map_of (map (\<lambda>k. (pos_name k, v)) [0..<101]) (pos_name k) = Some x"
    by (rule weak_map_of_SomeI [THEN exE])
  then have "(pos_name k, x) \<in> set (map (\<lambda>k. (pos_name k, v)) [0..<101])"
    by (rule map_of_SomeD)
  then have "x = v" by auto
  with x assms(2) show "map_of ((l, w) # map (\<lambda>k. (pos_name k, v)) [0..<101]) (pos_name k) = Some v"
    by auto
qed

lemma layout_not_pos: "''layout'' \<notin> range pos_name"
  by (auto simp: pos_name_def)

lemma ones_table_ok:
  "\<forall>k<101. count_list (labels ones_table) (pos_name k) = 1"
  "\<forall>k<101. column ones_table (pos_name k) = [Num 1, NaN]"
  "index ones_table = [''R1'', ''R2'']"
proof -
  have l: "labels ones_table = ''layout'' # map pos_name [0..<101]"
    by (simp add: ones_table_def labels_def o_def del: upt_Suc)
  show "\<forall>k<101. count_list (labels ones_table) (pos_name k) = 1"
    unfolding l using coverage_columns(1) [OF _ layout_not_pos] by blast
  have "column ones_table (pos_name k) = [Num 1, NaN]" if "k < 101" for k
    unfolding column_def ones_table_def frame.simps
    by (simp only: coverage_columns(2) [OF that layout_not_pos] option.case)
  then show "\<forall>k<101. column ones_table (pos_name k) = [Num 1, NaN]"
    by blast
  show "index ones_table = [''R1'', ''R2'']"
    by (simp add: ones_table_def)
qed



text \<open>
  Claim C10. In a row where every one of the 101 position columns holds a missing value,
  the reducer produces 0.0, not a missing value, in each of the three tertile columns.
\<close>

theorem reducer_all_missing_row_is_zero:
  assumes once: "\<forall>k<101. count_list (labels df) (pos_name k) = 1"
      and numeric: "\<forall>k<101. \<not> list_ex is_str (column df (pos_name k))"
      and i: "i < length (index df)"
      and missing: "\<forall>k<101. column df (pos_name k) ! i = NaN"
  shows "\<exists>df'. aggregate_gene_body_coverage df = Inr df' \<and>
           column df' ''gene_body_five_prime'' ! i = Num 0 \<and>
           column df' ''gene_body_middle'' ! i = Num 0 \<and>
           column df' ''gene_body_three_prime'' ! i = Num 0"
proof -
  from aggregate_row_sums [OF once numeric] i obtain df' where
    ok: "aggregate_gene_body_coverage df = Inr df'" and
    rows: "column df' ''gene_body_five_prime'' ! i = Num (\<Sum>k = 0..<33. num (column df (pos_name k) ! i))"
        "column df' ''gene_body_middle'' ! i = Num (\<Sum>k = 33..<68. num (column df (pos_name k) ! i))"
        "column df' ''gene_body_three_prime'' ! i = Num (\<Sum>k = 68..<101. num (column df (pos_name k) ! i))"
    by blast
  have "(\<Sum>k = a..<b. num (column df (pos_name k) ! i)) = 0" if "b \<le> 101" for a b
    by (rule sum.neutral) (use missing that in auto)
  from this [of 33 0] this [of 68 33] this [of 101 68] ok rows show ?thesis by simp
qed

theorem reducer_all_missing_row_is_zero_witness:
  "\<exists>df'. aggregate_gene_body_coverage ones_table = Inr df' \<and>
     column df' ''gene_body_five_prime'' ! 1 = Num 0 \<and>
     column df' ''gene_body_middle'' ! 1 = Num 0 \<and>
     column df' ''gene_body_three_prime'' ! 1 = Num 0"
  using reducer_all_missing_row_is_zero [of ones_table 1] by (simp add: ones_table_ok)

lemma aggregate_no_positions:
  assumes "\<forall>k<101. pos_name k \<notin> set (labels df)"
  shows "aggregate_gene_body_coverage df = Inl (KeyError (map pos_name [0..<33]))"
proof -
  have "missing_labels df (map pos_name [0..<33]) = map pos_name [0..<33]"
    unfolding missing_labels_def using assms by (intro filter_True) auto
  then have "block_sum df (map pos_name [0..<33]) = Inl (KeyError (map pos_name [0..<33]))"
    by (simp add: block_sum_def getitem_def del: upt_Suc)
  then show ?thesis
    unfolding aggregate_unfold assign_sum_def by (simp only: and_then_Inl)
qed

lemma aggregate_drops_positions:
  assumes "aggregate_gene_body_coverage df = Inr df'"
  shows "set (labels df') \<inter> set (map pos_name [0..<101]) = {}"
  unfolding labels_def aggregate_columns(5) [OF assms] by auto

text \<open>
  Claim C3. The reducer applied to a table it has produced fails: the first block it
  selects raises a KeyError naming \<open>pos_0\<close> .. \<open>pos_32\<close>, none of which is left.
\<close>

theorem reducer_reapplied_fails:
  assumes "aggregate_gene_body_coverage df = Inr df'"
  shows "aggregate_gene_body_coverage df' = Inl (KeyError (map pos_name [0..<33]))"
proof (rule aggregate_no_positions)
  show "\<forall>k<101. pos_name k \<notin> set (labels df')"
    using aggregate_drops_positions [OF assms] by auto
qed

theorem reducer_reapplied_fails_witness:
  "\<exists>df'. aggregate_gene_body_coverage ones_table = Inr df' \<and>
     aggregate_gene_body_coverage df' = Inl (KeyError (map pos_name [0..<33]))"
proof -
  have "\<forall>k<101. \<not> list_ex is_str (column ones_table (pos_name k))"
    by (simp add: ones_table_ok)
  from aggregate_succeeds(1) [OF ones_table_ok(1) this] obtain df'
    where "aggregate_gene_body_coverage ones_table = Inr df'" ..
  with reducer_reapplied_fails [of ones_table df'] show ?thesis by blast
qed







lemma pos_table:
  assumes "n \<le> 101" "k < n"
  shows "count_list (map pos_name [0..<n]) (pos_name k) = 1"
    and "map_of (map (\<lambda>k. (pos_name k, v)) [0..<n]) (pos_name k) = Some v"
proof -
  have inj: "inj_on pos_name (set [0..<n])"
    using assms(1) by (auto simp: inj_on_def intro: inj_pos)
  then have d: "distinct (map pos_name [0..<n])"
    by (simp add: distinct_map)
  moreover have "pos_name k \<in> set (map pos_name [0..<n])"
    using assms(2) by simp
  ultimately show "count_list (map pos_name [0..<n]) (pos_name k) = 1"
    by (rule count_list_distinct)
  have "map fst (map (\<lambda>k. (pos_name k, v)) [0..<n]) = map pos_name [0..<n]"
    by (simp add: o_def)
  with d have "distinct (map fst (map (\<lambda>k. (pos_name k, v)) [0..<n]))"
    by (simp only:)
  moreover have "(pos_name k, v) \<in> set (map (\<lambda>k. (pos_name k, v)) [0..<n])"
    using assms(2) by auto
  ultimately show "map_of (map (\<lambda>k. (pos_name k, v)) [0..<n]) (pos_name k) = Some v"
    by (rule map_of_is_SomeI)
qed




lemma filter_keep:
  assumes "\<And>c. P c \<Longrightarrow> fst c \<noteq> n"
  shows "filter P (columns (assign df n v)) = filter P (columns df)"
proof -
  have np: "\<not> P (n, x)" for x
    using assms [of "(n, x)"] by auto
  have "filter P (map (\<lambda>c. if fst c = n then (n, v) else c) cs) = filter P cs" for cs
  proof (induction cs)
    case Nil
    then show ?case by simp
  next
    case (Cons c cs)
    then show ?case by (cases c) (simp add: np)
  qed
  moreover have "filter P [(n, v)] = []"
    by (simp add: np)
  ultimately show ?thesis by (simp add: assign_def)
qed

lemma tertiles_not_pos: "set tertiles \<inter> set (map pos_name ks) = {}"
  using tertile_notin_block [of ks] by (simp add: tertiles_def)

text \<open>
  Claim C4. The table the reducer returns has the rows of its input; none of the 101
  position columns; the three tertile columns; and every other column of the input, in
  order and with the cells it had. When the input has no column named like a tertile,
  the output is the input's other columns followed by exactly the three new ones.
\<close>

theorem reducer_frame:
  assumes "aggregate_gene_body_coverage df = Inr df'"
  shows "index df' = index df \<and>
     (\<forall>k<101. pos_name k \<notin> set (labels df')) \<and>
     set (labels df') = (set (labels df) - set (map pos_name [0..<101])) \<union> set tertiles \<and>
     filter (\<lambda>c. fst c \<notin> set tertiles) (columns df') =
       filter (\<lambda>c. fst c \<notin> set tertiles \<and> fst c \<notin> set (map pos_name [0..<101])) (columns df) \<and>
     (set tertiles \<inter> set (labels df) = {} \<longrightarrow>
        (\<exists>s1 s2 s3. columns df' =
           filter (\<lambda>c. fst c \<notin> set (map pos_name [0..<101])) (columns df) @
           [(''gene_body_five_prime'', s1), (''gene_body_middle'', s2), (''gene_body_three_prime'', s3)]))"
proof -
  note c = aggregate_columns [OF assms]
  define s1 where "s1 = column df' ''gene_body_five_prime''"
  define s2 where "s2 = column df' ''gene_body_middle''"
  define s3 where "s3 = column df' ''gene_body_three_prime''"
  define P where "P = set (map pos_name [0..<101])"
  have cols: "columns df' = filter (\<lambda>c. fst c \<notin> P)
      (columns (assign (assign (assign df ''gene_body_five_prime'' s1) ''gene_body_middle'' s2)
         ''gene_body_three_prime'' s3))"
    unfolding s1_def s2_def s3_def P_def by (rule c(5))
  have tP: "''gene_body_five_prime'' \<notin> P" "''gene_body_middle'' \<notin> P" "''gene_body_three_prime'' \<notin> P"
    unfolding P_def by (rule tertile_notin_block)+
  have 1: "index df' = index df" by (rule c(1))
  have 2: "\<forall>k<101. pos_name k \<notin> set (labels df')"
    unfolding labels_def cols P_def by auto
  have 3: "set (labels df') = (set (labels df) - P) \<union> set tertiles"
  proof -
    have "set (labels df') = set (labels (assign (assign (assign df ''gene_body_five_prime'' s1)
        ''gene_body_middle'' s2) ''gene_body_three_prime'' s3)) - P"
      unfolding labels_def cols by auto
    then show ?thesis using tP by (auto simp: labels_assign tertiles_def)
  qed
  have 4: "filter (\<lambda>c. fst c \<notin> set tertiles) (columns df') =
       filter (\<lambda>c. fst c \<notin> set tertiles \<and> fst c \<notin> P) (columns df)"
  proof -
    have "filter (\<lambda>c. fst c \<notin> set tertiles) (columns df') =
      filter (\<lambda>c. fst c \<notin> P \<and> fst c \<notin> set tertiles)
        (columns (assign (assign (assign df ''gene_body_five_prime'' s1) ''gene_body_middle'' s2)
         ''gene_body_three_prime'' s3))"
      unfolding cols by simp
    also have "\<dots> = filter (\<lambda>c. fst c \<notin> P \<and> fst c \<notin> set tertiles) (columns df)"
    proof -
      have k: "filter (\<lambda>c. fst c \<notin> P \<and> fst c \<notin> set tertiles) (columns (assign d n v)) =
          filter (\<lambda>c. fst c \<notin> P \<and> fst c \<notin> set tertiles) (columns d)" if "n \<in> set tertiles" for d n v
        by (rule filter_keep) (use that in auto)
      have t: "''gene_body_five_prime'' \<in> set tertiles" "''gene_body_middle'' \<in> set tertiles"
        "''gene_body_three_prime'' \<in> set tertiles"
        by (simp_all add: tertiles_def)
      show ?thesis by (simp only: k [OF t(1)] k [OF t(2)] k [OF t(3)])
    qed
    also have "\<dots> = filter (\<lambda>c. fst c \<notin> set tertiles \<and> fst c \<notin> P) (columns df)"
      by (rule filter_cong) auto
    finally show ?thesis .
  qed
  have 5: "columns df' = filter (\<lambda>c. fst c \<notin> P) (columns df) @
           [(''gene_body_five_prime'', s1), (''gene_body_middle'', s2), (''gene_body_three_prime'', s3)]"
    if "set tertiles \<inter> set (labels df) = {}"
  proof -
    from that have "''gene_body_five_prime'' \<notin> set (labels df)"
      "''gene_body_middle'' \<notin> set (labels df)" "''gene_body_three_prime'' \<notin> set (labels df)"
      by (auto simp: tertiles_def)
    then have "columns (assign (assign (assign df ''gene_body_five_prime'' s1) ''gene_body_middle'' s2)
         ''gene_body_three_prime'' s3) = columns df @
           [(''gene_body_five_prime'', s1), (''gene_body_middle'', s2), (''gene_body_three_prime'', s3)]"
      by (simp add: assign_def labels_def)
    then show ?thesis unfolding cols using tP by simp
  qed
  from 1 2 3 4 5 show ?thesis unfolding P_def by blast
qed

lemma ones_table_no_tertiles: "set tertiles \<inter> set (labels ones_table) = {}"
proof -
  have "labels ones_table = ''layout'' # map pos_name [0..<101]"
    by (simp add: ones_table_def labels_def o_def del: upt_Suc)
  then show ?thesis
    using tertiles_not_pos [of "[0..<101]"] by (auto simp: tertiles_def)
qed

lemma ones_table_rest:
  "filter (\<lambda>c. fst c \<notin> set (map pos_name [0..<101])) (columns ones_table) = [(''layout'', [Str ''PE'', Str ''SE''])]"
proof -
  have "filter (\<lambda>c. fst c \<notin> set (map pos_name [0..<101])) (map (\<lambda>k. (pos_name k, [Num 1, NaN])) [0..<101]) = []"
    unfolding filter_empty_conv by auto
  moreover have "''layout'' \<notin> set (map pos_name [0..<101])"
    using layout_not_pos by auto
  ultimately show ?thesis
    unfolding ones_table_def frame.simps by (simp only: filter.simps if_True fst_conv) simp
qed

theorem reducer_frame_witness:
  "\<exists>df' s1 s2 s3. aggregate_gene_body_coverage ones_table = Inr df' \<and>
     index df' = [''R1'', ''R2''] \<and>
     columns df' = [(''layout'', [Str ''PE'', Str ''SE'']),
        (''gene_body_five_prime'', s1), (''gene_body_middle'', s2), (''gene_body_three_prime'', s3)]"
proof -
  have "\<forall>k<101. \<not> list_ex is_str (column ones_table (pos_name k))"
    by (simp add: ones_table_ok)
  from aggregate_succeeds(1) [OF ones_table_ok(1) this] obtain df'
    where df': "aggregate_gene_body_coverage ones_table = Inr df'" ..
  from reducer_frame [OF df'] ones_table_no_tertiles
  obtain s1 s2 s3 where "index df' = index ones_table"
    "columns df' = filter (\<lambda>c. fst c \<notin> set (map pos_name [0..<101])) (columns ones_table) @
           [(''gene_body_five_prime'', s1), (''gene_body_middle'', s2), (''gene_body_three_prime'', s3)]"
    by blast
  with df' show ?thesis
    unfolding ones_table_rest ones_table_ok(3) by auto
qed


section \<open>The source loader: filter and pad\<close>

lemma positions_Nil_iff: "positions idx r = [] \<longleftrightarrow> r \<notin> set idx"
  by (auto simp: positions_def filter_empty_conv in_set_conv_nth)

lemma locate_None_iff: "locate idx r = None \<longleftrightarrow> r \<notin> set idx"
  by (simp add: locate_def positions_Nil_iff [symmetric] split: list.split)

lemma index_realign [simp]: "index (realign target df) = target"
  by (simp add: realign_def)

lemma realign_pad:
  assumes "i < length target" "target ! i \<notin> set (index df)" "c \<in> set (columns (realign target df))"
  shows "snd c ! i = NaN"
proof -
  from assms(2) have "locate (index df) (target ! i) = None"
    by (simp add: locate_None_iff)
  with assms(1,3) show ?thesis
    by (auto simp: realign_def take_rows_def)
qed

lemma concat_axis1_index:
  assumes "concat_axis1 dfs = Inr cdf"
  shows "set (index cdf) \<subseteq> (\<Union>d\<in>set dfs. set (index d))"
proof (cases dfs)
  case Nil
  with assms show ?thesis by (simp add: concat_axis1_def)
next
  case (Cons d ds)
  with assms show ?thesis
    by (auto simp: concat_axis1_def Let_def split: if_splits)
qed

lemma reindex_Inr:
  assumes "reindex df srrs = Inr out"
  shows "index out = srrs"
    and "\<And>i c. i < length srrs \<Longrightarrow> srrs ! i \<notin> set (index df) \<Longrightarrow> c \<in> set (columns out) \<Longrightarrow> snd c ! i = NaN"
proof -
  show "index out = srrs"
    using assms by (auto simp: reindex_def split: if_splits)
  fix i c
  assume i: "i < length srrs" "srrs ! i \<notin> set (index df)" and c: "c \<in> set (columns out)"
  show "snd c ! i = NaN"
  proof (cases "index df = srrs")
    case True
    with i show ?thesis by simp
  next
    case False
    with assms have "out = realign srrs df"
      by (auto simp: reindex_def split: if_splits)
    with i c show ?thesis by (simp add: realign_pad)
  qed
qed

text \<open>
  Claim C7, as the code has it. The loader's rows are the completion list, label by
  label: a run that is not in the list is not in the output, a run of the list is there
  as many times as the list names it (once when it is listed once), and in the rows of a
  run that no source table has, every column holds a missing value.
\<close>

theorem loader_filter_pad:
  assumes "workflow_data fs srrs workflow_folders = Inr out"
  shows "\<exists>dfs. collect (map (\<lambda>e. read_parquet fs (snd e)) workflow_folders) = Inr dfs \<and>
     index out = srrs \<and>
     (\<forall>r. r \<notin> set srrs \<longrightarrow> r \<notin> set (index out)) \<and>
     (\<forall>r. count_list (index out) r = count_list srrs r) \<and>
     (\<forall>i<length srrs. (\<forall>d\<in>set dfs. srrs ! i \<notin> set (index d)) \<longrightarrow>
         (\<forall>c\<in>set (columns out). snd c ! i = NaN))"
proof -
  from assms obtain dfs cdf where
    dfs: "collect (map (\<lambda>e. read_parquet fs (snd e)) workflow_folders) = Inr dfs" and
    cdf: "concat_axis1 dfs = Inr cdf" and
    out: "reindex cdf srrs = Inr out"
    unfolding workflow_data_def and_then_Inr_iff by blast
  note r = reindex_Inr [OF out]
  have "snd c ! i = NaN"
    if "i < length srrs" "\<forall>d\<in>set dfs. srrs ! i \<notin> set (index d)" "c \<in> set (columns out)" for i c
  proof -
    from that(2) concat_axis1_index [OF cdf] have "srrs ! i \<notin> set (index cdf)"
      by auto
    with that show ?thesis by (intro r(2))
  qed
  with dfs r(1) show ?thesis by auto
qed

text \<open>
  Claim C7 as stated fails where the completion list repeats a run: \<open>R3\<close>, absent from
  the source table, is listed twice and appears twice.
\<close>

theorem loader_repeated_run_counterexample:
  "workflow_data one_source [''R3'', ''R1'', ''R3''] [(''aln_stats'', ''Features/aln_stats.parquet'')] =
     Inr \<lparr>index = [''R3'', ''R1'', ''R3''], columns = [(''num_reads'', [NaN, Num 10, NaN])]\<rparr>"
  by code_simp

lemma one_source_read:
  "collect (map (\<lambda>e. read_parquet one_source (snd e)) [(''aln_stats'', ''Features/aln_stats.parquet'')]) = Inr [two_runs]"
  by (simp add: read_parquet_def one_source_def)

theorem loader_filter_pad_witness:
  "\<exists>out. workflow_data one_source [''R3'', ''R1'', ''R3''] [(''aln_stats'', ''Features/aln_stats.parquet'')] = Inr out \<and>
     ''R2'' \<notin> set (index out) \<and> count_list (index out) ''R3'' = 2 \<and>
     list_all (\<lambda>c. snd c ! 0 = NaN \<and> snd c ! 2 = NaN) (columns out)"
proof -
  let ?out = "\<lparr>index = [''R3'', ''R1'', ''R3''], columns = [(''num_reads'', [NaN, Num 10, NaN])]\<rparr>"
  have w: "workflow_data one_source [''R3'', ''R1'', ''R3''] [(''aln_stats'', ''Features/aln_stats.parquet'')] = Inr ?out"
    by code_simp
  from loader_filter_pad [OF w] obtain dfs where
    dfs: "collect (map (\<lambda>e. read_parquet one_source (snd e)) [(''aln_stats'', ''Features/aln_stats.parquet'')]) = Inr dfs" and
    idx: "index ?out = [''R3'', ''R1'', ''R3'']" and
    out: "\<forall>r. r \<notin> set [''R3'', ''R1'', ''R3''] \<longrightarrow> r \<notin> set (index ?out)" and
    cnt: "\<forall>r. count_list (index ?out) r = count_list [''R3'', ''R1'', ''R3''] r" and
    pad: "\<forall>i<length [''R3'', ''R1'', ''R3'']. (\<forall>d\<in>set dfs. [''R3'', ''R1'', ''R3''] ! i \<notin> set (index d)) \<longrightarrow>
         (\<forall>c\<in>set (columns ?out). snd c ! i = NaN)"
    by blast
  from dfs have d: "dfs = [two_runs]" unfolding one_source_read by simp
  from out have 1: "''R2'' \<notin> set (index ?out)" by simp
  from cnt have 2: "count_list (index ?out) ''R3'' = 2" by simp
  from pad [rule_format, of 0] have 3: "\<forall>c\<in>set (columns ?out). snd c ! 0 = NaN"
    by (simp add: d two_runs_def)
  from pad [rule_format, of 2] have 4: "\<forall>c\<in>set (columns ?out). snd c ! 2 = NaN"
    by (simp add: d two_runs_def)
  from 3 4 have "list_all (\<lambda>c. snd c ! 0 = NaN \<and> snd c ! 2 = NaN) (columns ?out)"
    by (simp add: list_all_iff)
  with w 1 2 show ?thesis by blast
qed


section \<open>The pipeline on the scenario\<close>

lemma count_list_append: "count_list (xs @ ys) x = count_list xs x + count_list ys x"
  by (induction xs) auto

lemma pos_name_prefix: "take 4 (pos_name k) = ''pos_''"
  by (simp add: pos_name_def)

lemma pos_table_fun:
  assumes "k < 101"
  shows "map_of (map (\<lambda>k. (pos_name k, v k)) [0..<101]) (pos_name k) = Some (v k)"
proof -
  have "map fst (map (\<lambda>k. (pos_name k, v k)) [0..<101]) = map pos_name [0..<101]"
    by (simp add: o_def)
  with distinct_pos have "distinct (map fst (map (\<lambda>k. (pos_name k, v k)) [0..<101]))"
    by (simp only:)
  moreover have "(pos_name k, v k) \<in> set (map (\<lambda>k. (pos_name k, v k)) [0..<101])"
    using assms by auto
  ultimately show ?thesis by (rule map_of_is_SomeI)
qed

text \<open>The reducer on a table whose position columns stand together.\<close>

lemma aggregate_shape:
  assumes cols: "columns df = pre @ map (\<lambda>k. (pos_name k, v k)) [0..<101] @ post"
      and rest: "list_all (\<lambda>c. take 4 (fst c) \<noteq> ''pos_'' \<and> fst c \<notin> set tertiles) (pre @ post)"
      and numeric: "\<forall>k<101. \<not> list_ex is_str (v k)"
  shows "aggregate_gene_body_coverage df =
     Inr \<lparr>index = index df,
          columns = pre @ post @
            [(''gene_body_five_prime'', map (\<lambda>i. Num (\<Sum>k = 0..<33. num (v k ! i))) [0..<length (index df)]),
             (''gene_body_middle'', map (\<lambda>i. Num (\<Sum>k = 33..<68. num (v k ! i))) [0..<length (index df)]),
             (''gene_body_three_prime'', map (\<lambda>i. Num (\<Sum>k = 68..<101. num (v k ! i))) [0..<length (index df)])]\<rparr>"
proof -
  have np: "fst c \<noteq> pos_name k" if "c \<in> set (pre @ post)" for c k
  proof
    assume "fst c = pos_name k"
    moreover from rest that have "take 4 (fst c) \<noteq> ''pos_''"
      unfolding list_all_iff by blast
    ultimately show False using pos_name_prefix [of k] by simp
  qed
  have nps: "pos_name k \<notin> set (map fst pre)" "pos_name k \<notin> set (map fst post)" for k
    using np [of _ k] by force+
  have nt: "set tertiles \<inter> fst ` set (pre @ post) = {}"
    using rest by (auto simp: list_all_iff)
  have lab: "labels df = map fst pre @ map pos_name [0..<101] @ map fst post"
    by (simp add: labels_def cols o_def)
  have once: "\<forall>k<101. count_list (labels df) (pos_name k) = 1"
  proof (intro allI impI)
    fix k :: nat assume k: "k < 101"
    have "count_list (map fst pre) (pos_name k) = 0" "count_list (map fst post) (pos_name k) = 0"
      using nps [of k] by (simp_all add: count_list_0)
    moreover have "count_list (map pos_name [0..<101]) (pos_name k) = 1"
      using k by (intro pos_table(1)) simp_all
    ultimately show "count_list (labels df) (pos_name k) = 1"
      by (simp add: lab count_list_append)
  qed
  have col: "column df (pos_name k) = v k" if "k < 101" for k
  proof -
    have "map_of pre (pos_name k) = None"
      using nps(1) [of k] by (simp add: map_of_eq_None_iff)
    then show ?thesis
      by (simp add: column_def cols map_of_append map_add_def pos_table_fun [OF that])
  qed
  have num: "\<forall>k<101. \<not> list_ex is_str (column df (pos_name k))"
    using numeric by (simp add: col)
  have b: "block_sum df (map pos_name [a..<b]) =
       Inr (map (\<lambda>i. Num (\<Sum>k = a..<b. num (v k ! i))) [0..<length (index df)])"
    if "a \<le> b" "b \<le> 101" for a b
  proof -
    have "(\<Sum>k = a..<b. num (column df (pos_name k) ! i)) = (\<Sum>k = a..<b. num (v k ! i))" for i
      by (rule sum.cong) (use that col in auto)
    then show ?thesis
      by (simp add: aggregate_succeeds(2) [OF once num that])
  qed
  have t: "''gene_body_five_prime'' \<notin> set (labels df)" "''gene_body_middle'' \<notin> set (labels df)"
    "''gene_body_three_prime'' \<notin> set (labels df)"
    using nt tertile_notin_block [of "[0..<101]"] by (auto simp: lab tertiles_def)
  have f: "filter (\<lambda>c. fst c \<notin> set (map pos_name [0..<101])) (columns df) = pre @ post"
  proof -
    have "filter (\<lambda>c. fst c \<notin> set (map pos_name [0..<101])) (map (\<lambda>k. (pos_name k, v k)) [0..<101]) = []"
      unfolding filter_empty_conv by auto
    moreover have "filter (\<lambda>c. fst c \<notin> set (map pos_name [0..<101])) xs = xs"
      if "set xs \<subseteq> set (pre @ post)" for xs
    proof (rule filter_True, rule ballI)
      fix c assume "c \<in> set xs"
      with that have "c \<in> set (pre @ post)" by blast
      from np [OF this] show "fst c \<notin> set (map pos_name [0..<101])" by auto
    qed
    ultimately show ?thesis by (simp add: cols)
  qed
  show ?thesis
    unfolding aggregate_Inr_iff
    using b [of 0 33] b [of 33 68] b [of 68 101] t f tertile_notin_block [of "[0..<101]"]
    by (simp add: assign_def labels_def)
qed




section \<open>The sample aggregator\<close>

lemma collect_Inr_iff: "collect rs = Inr xs \<longleftrightarrow> rs = map Inr xs"
proof (induction rs arbitrary: xs)
  case Nil
  then show ?case by auto
next
  case (Cons r rs)
  show ?case
  proof (cases r)
    case (Inl e)
    then show ?thesis by auto
  next
    case (Inr x)
    show ?thesis
    proof (cases "collect rs")
      case (Inl e)
      with Cons [of "[]"] Cons Inr show ?thesis
        by (cases xs) auto
    next
      case r: (Inr ys)
      with Cons Inr show ?thesis by (cases xs) auto
    qed
  qed
qed

lemma collect_Inl: "Inl e \<in> set rs \<Longrightarrow> \<exists>e'. collect rs = Inl e'"
proof (induction rs)
  case Nil
  then show ?case by simp
next
  case (Cons r rs)
  then show ?case
    by (cases r; cases "collect rs") auto
qed

lemma getitem_Inr_iff:
  "getitem df ks = Inr g \<longleftrightarrow> set ks \<subseteq> set (labels df) \<and> g = df\<lparr>columns := select_columns df ks\<rparr>"
  by (auto simp: getitem_def missing_Nil_iff)

lemma getitem_absent:
  assumes "k \<in> set ks" "k \<notin> set (labels df)"
  shows "\<exists>ms. getitem df ks = Inl (KeyError ms) \<and> k \<in> set ms"
proof -
  from assms have "k \<in> set (missing_labels df ks)"
    by (simp add: missing_labels_def)
  then show ?thesis by (auto simp: getitem_def)
qed

lemma index_rename [simp]: "index (rename_columns m g) = index g"
  by (simp add: rename_columns_def)

lemma labels_rename: "labels (rename_columns m g) = map (rename_label m) (labels g)"
  by (simp add: rename_columns_def labels_def o_def)

lemma groupby_agg_absent:
  assumes "k \<in> set (map fst spec)" "k \<notin> set (labels df)"
  shows "\<exists>e. groupby_agg df key spec = Inl e"
proof -
  from assms have "filter (\<lambda>k. k \<notin> set (labels df) \<or> k = key) (map fst spec) \<noteq> []"
    by (auto simp: filter_empty_conv)
  then show ?thesis
    by (auto simp: groupby_agg_def Let_def split: list.split)
qed

lemma groupby_agg_Inr:
  assumes "groupby_agg df key spec = Inr g"
  shows "\<exists>kc. filter (\<lambda>c. fst c = key) (columns df) = [kc] \<and>
     index g = group_keys (snd kc) \<and>
     (\<forall>k\<in>set (map fst spec). k \<in> set (labels df) \<and> k \<noteq> key) \<and>
     concat (map (\<lambda>e. map (agg_column (snd kc) (group_keys (snd kc)) (snd e))
                          (filter (\<lambda>c. fst c = fst e) (columns df))) spec) = map Inr (columns g)"
proof (cases "filter (\<lambda>c. fst c = key) (columns df)")
  case Nil
  with assms show ?thesis by (simp add: groupby_agg_def)
next
  case (Cons kc rest)
  show ?thesis
  proof (cases rest)
    case Nil
    with Cons assms show ?thesis
      by (auto simp: groupby_agg_def Let_def and_then_Inr_iff collect_Inr_iff filter_empty_conv
            split: if_splits)
  next
    case (Cons a list)
    with \<open>filter (\<lambda>c. fst c = key) (columns df) = kc # rest\<close> assms show ?thesis
      by (simp add: groupby_agg_def)
  qed
qed

lemma filter_label_first:
  "filter (\<lambda>c. fst c = k) cs = x # xs \<Longrightarrow> map_of cs k = Some (snd x)"
proof (induction cs)
  case Nil
  then show ?case by simp
next
  case (Cons c cs)
  then show ?case by (cases c) (auto split: if_splits)
qed

lemma filter_label_distinct:
  assumes "distinct (labels df)" "k \<in> set (labels df)"
  shows "filter (\<lambda>c. fst c = k) (columns df) = [(k, column df k)]"
proof -
  from assms have "count_list (map fst (columns df)) k = 1"
    unfolding labels_def by (rule count_list_distinct)
  then show ?thesis
    by (simp add: filter_label_once column_def)
qed

lemma select_distinct:
  assumes "distinct (labels df)" "set ks \<subseteq> set (labels df)"
  shows "select_columns df ks = map (\<lambda>k. (k, column df k)) ks"
proof (rule select_once, rule ballI)
  fix k assume "k \<in> set ks"
  with assms show "count_list (labels df) k = 1"
    by (intro count_list_distinct) auto
qed

lemma agg_column_Inr_iff:
  "agg_column kc keys f c = Inr c' \<longleftrightarrow>
     fst c' = fst c \<and>
     map (\<lambda>k. reduce f (map (\<lambda>i. snd c ! i) (group_rows kc k))) keys = map Inr (snd c')"
  by (cases c') (auto simp: agg_column_def and_then_Inr_iff collect_Inr_iff)

lemma map_Inr_all2:
  assumes "map F xs = map Inr ys" and "\<And>x y. F x = Inr y \<Longrightarrow> P x y"
  shows "list_all2 P xs ys"
proof -
  from assms(1) have "length xs = length ys"
    by (metis length_map)
  moreover have "P (xs ! n) (ys ! n)" if "n < length xs" for n
  proof -
    from assms(1) that \<open>length xs = length ys\<close> have "F (xs ! n) = Inr (ys ! n)"
      by (metis nth_map)
    then show ?thesis by (rule assms(2))
  qed
  ultimately show ?thesis by (simp add: list_all2_conv_all_nth)
qed

text \<open>The grouped table, column by column, when the labels of the input are distinct.\<close>

lemma groupby_columns:
  assumes g: "groupby_agg df key spec = Inr g" and d: "distinct (labels df)"
  shows "index g = group_keys (column df key)"
    and "list_all2 (\<lambda>e c. fst c = fst e \<and>
           map (\<lambda>k. reduce (snd e) (map (\<lambda>i. column df (fst e) ! i) (group_rows (column df key) k)))
             (group_keys (column df key)) = map Inr (snd c)) spec (columns g)"
proof -
  from groupby_agg_Inr [OF g] obtain kc where
    kc: "filter (\<lambda>c. fst c = key) (columns df) = [kc]" and
    idx: "index g = group_keys (snd kc)" and
    sub: "\<forall>k\<in>set (map fst spec). k \<in> set (labels df) \<and> k \<noteq> key" and
    cols: "concat (map (\<lambda>e. map (agg_column (snd kc) (group_keys (snd kc)) (snd e))
                          (filter (\<lambda>c. fst c = fst e) (columns df))) spec) = map Inr (columns g)"
    by blast
  from kc have k: "column df key = snd kc"
    by (simp add: column_def filter_label_first)
  show "index g = group_keys (column df key)"
    by (simp add: k idx)
  have "map (\<lambda>e. map (agg_column (snd kc) (group_keys (snd kc)) (snd e))
                          (filter (\<lambda>c. fst c = fst e) (columns df))) spec =
        map (\<lambda>e. [agg_column (snd kc) (group_keys (snd kc)) (snd e) (fst e, column df (fst e))]) spec"
    using sub by (intro map_cong refl) (simp add: filter_label_distinct [OF d])
  with cols have "map (\<lambda>e. agg_column (snd kc) (group_keys (snd kc)) (snd e) (fst e, column df (fst e))) spec =
      map Inr (columns g)"
    by (simp add: concat_map_singleton)
  then show "list_all2 (\<lambda>e c. fst c = fst e \<and>
           map (\<lambda>k. reduce (snd e) (map (\<lambda>i. column df (fst e) ! i) (group_rows (column df key) k)))
             (group_keys (column df key)) = map Inr (snd c)) spec (columns g)"
    unfolding k by (rule map_Inr_all2) (simp add: agg_column_Inr_iff)
qed

lemma groupby_labels:
  assumes "groupby_agg df key spec = Inr g" "distinct (labels df)"
  shows "labels g = map fst spec"
proof -
  from groupby_columns(2) [OF assms] have "list_all2 (\<lambda>e c. fst c = fst e) spec (columns g)"
    by (rule list_all2_mono) simp
  then show ?thesis
    unfolding labels_def by (induction rule: list_all2_induct) simp_all
qed

lemma getitem_labels:
  assumes "getitem df ks = Inr g" "distinct (labels df)"
  shows "labels g = ks"
proof -
  from assms(1) have "set ks \<subseteq> set (labels df)" "columns g = select_columns df ks"
    by (simp_all add: getitem_Inr_iff)
  with assms(2) show ?thesis
    by (simp add: labels_def select_distinct o_def)
qed

lemma feature_table_labels:
  assumes "feature_table fs input Features = Inr out"
      and "reduced_table fs input Features = Inr df" and "distinct (labels df)"
  shows "labels out = map (rename_label FEATURE_RENAME) (map fst FEATURE_AGG)"
proof -
  from assms(1,2) obtain g where
    "groupby_agg df ''srx'' FEATURE_AGG = Inr g \<or> getitem df (map fst FEATURE_AGG) = Inr g"
    and out: "out = rename_columns FEATURE_RENAME g"
    by (auto simp: feature_table_alt and_then_Inr_iff split: if_splits)
  then have "labels g = map fst FEATURE_AGG"
    using groupby_labels [OF _ assms(3)] getitem_labels [OF _ assms(3)] by blast
  then show ?thesis by (simp add: out labels_rename)
qed

section \<open>The feature catalog\<close>

lemma renamed_catalog:
  "map (rename_label FEATURE_RENAME) (map fst FEATURE_AGG) =
     [''percent_rrna_reads'', ''number_reads_too_short'', ''number_reads'',
      ''number_multimapping_reads'', ''percent_alignment'', ''reads_MQ0'', ''average_quality'',
      ''percent_reverse'', ''percent_utr_bases'', ''percent_intronic_bases'',
      ''percent_intergenic_bases'', ''percent_mrna_bases'', ''median_cv_coverage'',
      ''percent_duplication'', ''number_genic_reads'', ''percent_genes_on'',
      ''number_junction_reads'', ''number_junctions_on'', ''gene_body_five_prime'',
      ''gene_body_middle'', ''gene_body_three_prime'']"
  by code_simp

lemma renamed_catalog_distinct: "distinct (map (rename_label FEATURE_RENAME) (map fst FEATURE_AGG))"
  unfolding renamed_catalog by simp

text \<open>
  Claim C8. The renaming of the catalog is injective on the catalog's internal names, so
  the 21 public names are distinct; a name without an entry in the rename dictionary stays
  as it is; a table whose columns are the catalog's has no repeated label once renamed,
  and that is the table the pipeline writes when the joined table has no repeated label.
\<close>

theorem rename_bijective_on_catalog:
  "inj_on (rename_label FEATURE_RENAME) (set (map fst FEATURE_AGG)) \<and>
   distinct (map (rename_label FEATURE_RENAME) (map fst FEATURE_AGG)) \<and>
   (\<forall>k. map_of FEATURE_RENAME k = None \<longrightarrow> rename_label FEATURE_RENAME k = k) \<and>
   (\<forall>g. labels g = map fst FEATURE_AGG \<longrightarrow> distinct (labels (rename_columns FEATURE_RENAME g))) \<and>
   (\<forall>fs input Features df out.
      reduced_table fs input Features = Inr df \<and> distinct (labels df) \<and>
      feature_table fs input Features = Inr out \<longrightarrow>
      labels out = map (rename_label FEATURE_RENAME) (map fst FEATURE_AGG) \<and> distinct (labels out))"
proof -
  have "inj_on (rename_label FEATURE_RENAME) (set (map fst FEATURE_AGG))"
    using renamed_catalog_distinct by (simp only: distinct_map)
  moreover have "\<forall>k. map_of FEATURE_RENAME k = None \<longrightarrow> rename_label FEATURE_RENAME k = k"
    by (simp add: rename_label_def)
  moreover have "\<forall>g. labels g = map fst FEATURE_AGG \<longrightarrow> distinct (labels (rename_columns FEATURE_RENAME g))"
    using renamed_catalog_distinct by (simp add: labels_rename)
  moreover have "labels out = map (rename_label FEATURE_RENAME) (map fst FEATURE_AGG) \<and> distinct (labels out)"
    if "reduced_table fs input Features = Inr df" "distinct (labels df)"
      "feature_table fs input Features = Inr out" for fs input Features df out
    using feature_table_labels [OF that(3,1,2)] renamed_catalog_distinct by simp
  ultimately show ?thesis using renamed_catalog_distinct by blast
qed

theorem rename_bijective_on_catalog_witness:
  "rename_label FEATURE_RENAME ''num_reads'' \<noteq> rename_label FEATURE_RENAME ''number_genic_reads'' \<and>
   rename_label FEATURE_RENAME ''reads_MQ0'' = ''reads_MQ0'' \<and>
   distinct (labels (rename_columns FEATURE_RENAME \<lparr>index = [], columns = map (\<lambda>e. (fst e, [])) FEATURE_AGG\<rparr>))"
proof -
  note inj = rename_bijective_on_catalog [THEN conjunct1]
  note same = rename_bijective_on_catalog [THEN conjunct2, THEN conjunct2, THEN conjunct1, rule_format]
  note out = rename_bijective_on_catalog [THEN conjunct2, THEN conjunct2, THEN conjunct2, THEN conjunct1, rule_format]
  have m: "''num_reads'' \<in> set (map fst FEATURE_AGG)" "''number_genic_reads'' \<in> set (map fst FEATURE_AGG)"
    by (simp_all add: FEATURE_AGG_def)
  have 1: "rename_label FEATURE_RENAME ''num_reads'' \<noteq> rename_label FEATURE_RENAME ''number_genic_reads''"
  proof
    assume "rename_label FEATURE_RENAME ''num_reads'' = rename_label FEATURE_RENAME ''number_genic_reads''"
    from inj_onD [OF inj this m] show False by simp
  qed
  have "map_of FEATURE_RENAME ''reads_MQ0'' = None"
    by (simp add: FEATURE_RENAME_def)
  then have 2: "rename_label FEATURE_RENAME ''reads_MQ0'' = ''reads_MQ0''"
    by (rule same)
  have "labels \<lparr>index = [], columns = map (\<lambda>e. (fst e, [])) FEATURE_AGG\<rparr> = map fst FEATURE_AGG"
    by (simp add: labels_def o_def)
  then have 3: "distinct (labels (rename_columns FEATURE_RENAME \<lparr>index = [], columns = map (\<lambda>e. (fst e, [])) FEATURE_AGG\<rparr>))"
    by (rule out)
  from 1 2 3 show ?thesis by (intro conjI)
qed

section \<open>Failure writes nothing\<close>

lemma build_features_cases:
  "(\<exists>e. feature_table fs input Features = Inl e \<and> build_features input Features fs = (Some e, fs)) \<or>
   (\<exists>out. feature_table fs input Features = Inr out \<and>
      build_features input Features fs = (None, fs(Features @ ''/features.parquet'' := Some (Parquet out))))"
  by (cases "feature_table fs input Features") (simp_all add: build_features_def)

lemma feature_table_absent:
  assumes df: "reduced_table fs input Features = Inr df"
      and k: "k \<in> set (map fst FEATURE_AGG)" "k \<notin> set (labels df)"
  shows "\<exists>e. feature_table fs input Features = Inl e"
proof (cases "load_manifest fs input")
  case (Inl e)
  then show ?thesis by (simp add: feature_table_alt)
next
  case (Inr srr_df)
  from groupby_agg_absent [OF k] obtain e1 where "groupby_agg df ''srx'' FEATURE_AGG = Inl e1" ..
  moreover from getitem_absent [OF k] obtain ms where "getitem df (map fst FEATURE_AGG) = Inl (KeyError ms)"
    by blast
  ultimately show ?thesis
    by (simp add: feature_table_alt Inr df)
qed

text \<open>
  Claim C9. When a column of the catalog is absent from the joined and reduced table,
  \<^verbatim>\<open>build_features\<close> fails; whenever it fails the files are as they were, and when it
  succeeds the only file written is \<open>features.parquet\<close>, holding the feature table.
\<close>

theorem missing_catalog_column_fails:
  "(reduced_table fs input Features = Inr df \<and> k \<in> set (map fst FEATURE_AGG) \<and> k \<notin> set (labels df) \<longrightarrow>
      (\<exists>e. build_features input Features fs = (Some e, fs))) \<and>
   (\<forall>e fs'. build_features input Features fs = (Some e, fs') \<longrightarrow> fs' = fs) \<and>
   (\<forall>fs'. build_features input Features fs = (None, fs') \<longrightarrow>
      (\<exists>out. feature_table fs input Features = Inr out \<and>
         fs' = fs(Features @ ''/features.parquet'' := Some (Parquet out))))"
proof (intro conjI impI allI)
  assume "reduced_table fs input Features = Inr df \<and> k \<in> set (map fst FEATURE_AGG) \<and> k \<notin> set (labels df)"
  then obtain e where "feature_table fs input Features = Inl e"
    using feature_table_absent [of fs input Features df k] by blast
  then show "\<exists>e. build_features input Features fs = (Some e, fs)"
    by (simp add: build_features_def)
next
  fix e fs'
  assume "build_features input Features fs = (Some e, fs')"
  then show "fs' = fs"
    by (cases "feature_table fs input Features") (simp_all add: build_features_def)
next
  fix fs'
  assume "build_features input Features fs = (None, fs')"
  then show "\<exists>out. feature_table fs input Features = Inr out \<and>
         fs' = fs(Features @ ''/features.parquet'' := Some (Parquet out))"
    by (cases "feature_table fs input Features") (auto simp: build_features_def)
qed

lemma scenario_no_metrics_reduced:
  "reduced_table scenario_no_metrics ''manifest.tsv'' ''out/Features'' =
     Inr \<lparr>index = [''R1'', ''R2'', ''R3''],
          columns =
            [(''srx'', [Str ''S1'', Str ''S1'', Str ''S2'']), (''srr'', [Str ''R1'', Str ''R2'', Str ''R3'']),
             (''gene_body_five_prime'', [Num 33, Num 66, Num 0]),
             (''gene_body_middle'', [Num 35, Num 70, Num 0]),
             (''gene_body_three_prime'', [Num 33, Num 66, Num 0])]\<rparr>"
proof -
  let ?post = "[(''srx'', [Str ''S1'', Str ''S1'', Str ''S2'']), (''srr'', [Str ''R1'', Str ''R2'', Str ''R3''])]"
  let ?joined = "\<lparr>index = [''R1'', ''R2'', ''R3''],
      columns = map (\<lambda>k. (pos_name k, [Num 1, Num 2, NaN])) [0..<101] @ ?post\<rparr>"
  have j: "joined_table scenario_no_metrics ''manifest.tsv'' ''out/Features'' = Inr ?joined"
    by code_simp
  have rest: "list_all (\<lambda>c. take 4 (fst c) \<noteq> ''pos_'' \<and> fst c \<notin> set tertiles) ([] @ ?post)"
    by code_simp
  have sums: "map (\<lambda>i. Num (\<Sum>k = a..<b. num ([Num 1, Num 2, NaN] ! i))) [0..<3] =
      [Num (real (b - a)), Num (2 * real (b - a)), Num 0]" for a b :: nat
  proof -
    have "[0..<3] = [0, 1, 2]" by code_simp
    then show ?thesis by simp
  qed
  show ?thesis
    using aggregate_shape [of ?joined "[]" "\<lambda>k. [Num 1, Num 2, NaN]" ?post, OF _ rest]
    by (simp add: reduced_table_def j sums)
qed

theorem missing_catalog_column_fails_witness:
  "\<exists>e. build_features ''manifest.tsv'' ''out/Features'' scenario_no_metrics = (Some e, scenario_no_metrics)"
proof -
  let ?df = "\<lparr>index = [''R1'', ''R2'', ''R3''],
          columns =
            [(''srx'', [Str ''S1'', Str ''S1'', Str ''S2'']), (''srr'', [Str ''R1'', Str ''R2'', Str ''R3'']),
             (''gene_body_five_prime'', [Num 33, Num 66, Num 0]),
             (''gene_body_middle'', [Num 35, Num 70, Num 0]),
             (''gene_body_three_prime'', [Num 33, Num 66, Num 0])]\<rparr>"
  have r: "reduced_table scenario_no_metrics ''manifest.tsv'' ''out/Features'' = Inr ?df"
    by (rule scenario_no_metrics_reduced)
  have k: "''num_reads'' \<in> set (map fst FEATURE_AGG)"
    by (simp add: FEATURE_AGG_def)
  have n: "''num_reads'' \<notin> set (labels ?df)"
    by (simp add: labels_def)
  show ?thesis
    by (rule missing_catalog_column_fails [of scenario_no_metrics "''manifest.tsv''" "''out/Features''"
          ?df "''num_reads''", THEN conjunct1, rule_format]) (intro conjI r k n)
qed


section \<open>Grouped reduction\<close>










section \<open>Rows of the feature table\<close>




















end
